theory Spec2Isabelle
  imports Main "HOL-Library.AList"
begin

section \<open>sshtunnel.py: values, errors and the Tunnel entity\<close>

text \<open>
  The script is Python. Exceptions are values: every function that can raise returns
  \<open>error + 'a\<close>, with \<open>Inl\<close> for the exception. Messages are kept where the source
  builds them.
\<close>

datatype error =
    ConfigError string
  | RuntimeError string
  | ValueError
  | TypeError
  | OverflowError
  | AttributeError string
  | KeyError string
  | IOError

text \<open>The dynamically typed values that configuration fields and attributes hold.\<close>

datatype pyval = PNone | PBool bool | PInt int | PStr string | PList "string list"

text \<open>
  \<open>class Tunnel\<close>: the constructor copies twelve entries of the cleaned configuration
  into private attributes, each read back through a property of the same name without
  the underscore (\<open>_reverse\<close> through \<open>is_reverse\<close>).
\<close>

record tunnel =
  name :: string
  group_name :: string
  ssh_options :: "string list"
  ssh_key :: "string option"
  ssh_user :: "string option"
  ssh_port :: int
  remote_server :: string
  remote_address :: string
  remote_port :: int
  local_address :: string
  local_port :: int
  is_reverse :: bool

definition opt_str :: "string option \<Rightarrow> pyval" where
  "opt_str x = (case x of None \<Rightarrow> PNone | Some s \<Rightarrow> PStr s)"

text \<open>
  Attribute lookup on a Tunnel instance, for the data attributes and properties the class
  defines. Any other name raises AttributeError, as Python's attribute lookup does.
\<close>

definition tunnel_getattr :: "tunnel \<Rightarrow> string \<Rightarrow> error + pyval" where
  "tunnel_getattr t a =
    (if a = ''name'' \<or> a = ''_name'' then Inr (PStr (name t))
     else if a = ''group_name'' \<or> a = ''_group_name'' then Inr (PStr (group_name t))
     else if a = ''ssh_options'' \<or> a = ''_ssh_options'' then Inr (PList (ssh_options t))
     else if a = ''ssh_key'' \<or> a = ''_ssh_key'' then Inr (opt_str (ssh_key t))
     else if a = ''ssh_user'' \<or> a = ''_ssh_user'' then Inr (opt_str (ssh_user t))
     else if a = ''ssh_port'' \<or> a = ''_ssh_port'' then Inr (PInt (ssh_port t))
     else if a = ''remote_server'' \<or> a = ''_remote_server'' then Inr (PStr (remote_server t))
     else if a = ''remote_address'' \<or> a = ''_remote_address'' then Inr (PStr (remote_address t))
     else if a = ''remote_port'' \<or> a = ''_remote_port'' then Inr (PInt (remote_port t))
     else if a = ''local_address'' \<or> a = ''_local_address'' then Inr (PStr (local_address t))
     else if a = ''local_port'' \<or> a = ''_local_port'' then Inr (PInt (local_port t))
     else if a = ''is_reverse'' \<or> a = ''_reverse'' then Inr (PBool (is_reverse t))
     else Inl (AttributeError a))"

text \<open>
  \<open>Tunnel.__eq__\<close>:
  \<^verbatim>\<open>return (self._remote_address, self._remote_port) == (other.remote_adress, other.remote_port)\<close>
  The right-hand tuple is built left to right, so \<open>other.remote_adress\<close> (spelled with
  one d in the source) is looked up first.
\<close>

definition Tunnel_eq :: "tunnel \<Rightarrow> tunnel \<Rightarrow> error + bool" where
  "Tunnel_eq self other =
    (case tunnel_getattr other ''remote_adress'' of
       Inl e \<Rightarrow> Inl e
     | Inr a \<Rightarrow>
        (case tunnel_getattr other ''remote_port'' of
           Inl e \<Rightarrow> Inl e
         | Inr p \<Rightarrow> Inr ((PStr (remote_address self), PInt (remote_port self)) = (a, p))))"

text \<open>\<open>Tunnel.__ne__\<close>: \<^verbatim>\<open>return not self.__eq__(other)\<close>\<close>

definition Tunnel_ne :: "tunnel \<Rightarrow> tunnel \<Rightarrow> error + bool" where
  "Tunnel_ne self other =
    (case Tunnel_eq self other of Inl e \<Rightarrow> Inl e | Inr b \<Rightarrow> Inr (\<not> b))"

text \<open>\<open>Tunnel.__hash__\<close> hashes this pair; it reads the private attributes and never fails.\<close>

definition Tunnel_hash_key :: "tunnel \<Rightarrow> string \<times> int" where
  "Tunnel_hash_key self = (remote_address self, remote_port self)"

section \<open>TunnelConfig.get_tunnels\<close>

text \<open>\<open>sep.join(xs)\<close>\<close>

fun py_join :: "string \<Rightarrow> string list \<Rightarrow> string" where
  "py_join sep [] = []"
| "py_join sep [x] = x"
| "py_join sep (x # y # ys) = x @ sep @ py_join sep (y # ys)"

text \<open>
  One pass of the loop over \<open>self._tunnels\<close>: the state is the result list and the set
  \<open>found_identifiers\<close>. The four tests are an if/elif chain, so only the first attribute
  that matches is recorded as found.
\<close>

definition get_tunnels_step ::
  "string list \<Rightarrow> tunnel \<Rightarrow> tunnel list \<times> string set \<Rightarrow> tunnel list \<times> string set" where
  "get_tunnels_step ids t st =
    (case st of (result, found) \<Rightarrow>
      if name t \<in> set ids then (result @ [t], insert (name t) found)
      else if group_name t \<in> set ids then (result @ [t], insert (group_name t) found)
      else if remote_server t \<in> set ids then (result @ [t], insert (remote_server t) found)
      else if remote_address t \<in> set ids then (result @ [t], insert (remote_address t) found)
      else (result, found))"

definition get_tunnels :: "tunnel list \<Rightarrow> string list \<Rightarrow> error + tunnel list" where
  "get_tunnels tunnels ids =
    (case fold (get_tunnels_step ids) tunnels ([], {}) of (result, found) \<Rightarrow>
      (let not_found_identifiers = filter (\<lambda>i. i \<notin> found) ids
       in if not_found_identifiers \<noteq> []
          then Inl (RuntimeError (''Unknown tunnels: '' @ py_join '', '' not_found_identifiers))
          else Inr result))"

text \<open>What the documentation of the lookup asks of a tunnel and an identifier.\<close>

definition matches :: "tunnel \<Rightarrow> string \<Rightarrow> bool" where
  "matches t i = (name t = i \<or> group_name t = i \<or> remote_server t = i \<or> remote_address t = i)"

text \<open>A tunnel is selected when one of its four identifiers is among the requested ones.\<close>

definition selected :: "string list \<Rightarrow> tunnel \<Rightarrow> bool" where
  "selected ids t = (\<exists>i \<in> set ids. matches t i)"

text \<open>A registry of one tunnel, named web, in the group prod.\<close>

definition web_tunnel :: tunnel where
  "web_tunnel = \<lparr>name = ''web'', group_name = ''prod'', ssh_options = [], ssh_key = None,
      ssh_user = None, ssh_port = 22, remote_server = ''prod.example.org'',
      remote_address = ''10.0.0.1'', remote_port = 80, local_address = ''127.1.1.1'',
      local_port = 8080, is_reverse = False\<rparr>"

section \<open>KillEventHandler\<close>

text \<open>
  Timestamps are \<open>datetime.utcnow()\<close> values, which have microsecond resolution: an
  integer number of microseconds. \<open>INTERVAL\<close> is one second.
\<close>

definition INTERVAL :: int where
  "INTERVAL = 1000000"

definition EVENT_COUNT :: nat where
  "EVENT_COUNT = 3"

datatype signal_outcome = HardExit | KeyboardInterrupt

text \<open>
  \<open>_on_signal\<close>: the state is the list \<open>_quit_msg\<close>, the input the time of the signal.
  \<open>os._exit(1)\<close> is the outcome HardExit, \<open>raise KeyboardInterrupt()\<close> the other one.
\<close>

definition on_signal :: "int list \<Rightarrow> int \<Rightarrow> signal_outcome \<times> int list" where
  "on_signal quit_msg now =
    (let q1 = quit_msg @ [now];
         q2 = (if length q1 > EVENT_COUNT then drop (length q1 - EVENT_COUNT) q1 else q1)
     in if length q2 \<ge> EVENT_COUNT \<and> last q2 - hd q2 < INTERVAL
        then (HardExit, q2)
        else (KeyboardInterrupt, q2))"

text \<open>
  The handler run on a sequence of signal times, from the state \<open>quit_msg\<close>. The process
  is gone after a hard exit, so no outcome follows it.
\<close>

fun on_signals :: "int list \<Rightarrow> int list \<Rightarrow> signal_outcome list" where
  "on_signals quit_msg [] = []"
| "on_signals quit_msg (t # ts) =
    (case on_signal quit_msg t of
       (HardExit, _) \<Rightarrow> [HardExit]
     | (KeyboardInterrupt, q) \<Rightarrow> KeyboardInterrupt # on_signals q ts)"

section \<open>TunnelConfig._analyse_config\<close>

text \<open>
  The parsed document, as the loops of \<open>_analyse_config\<close> read it: the sections in the order
  of \<open>parser.sections()\<close>, each with its options as the pairs
  \<open>(key, parser.get(section, key))\<close> in the order of \<open>parser.options(section)\<close>. A
  ConfigParser holds every section name once, and every option once in a section.
  A field set is a Python dict from key to value, kept as an association list.
\<close>

type_synonym fields = "(string \<times> string) list"

type_synonym parser = "(string \<times> (string \<times> string) list) list"

text \<open>\<^verbatim>\<open>for key in parser.options(section): fields[key] = parser.get(section, key)\<close>\<close>

definition set_options :: "(string \<times> string) list \<Rightarrow> fields \<Rightarrow> fields" where
  "set_options opts flds = fold (\<lambda>(key, val) f. AList.update key val f) opts flds"

text \<open>\<^verbatim>\<open>section in ("global", "common")\<close>\<close>

definition is_common_section :: "string \<Rightarrow> bool" where
  "is_common_section section = (section = ''global'' \<or> section = ''common'')"

text \<open>\<open>s.split(sep, maxsplit)\<close> for a separator of one character.\<close>

fun py_split :: "char \<Rightarrow> nat \<Rightarrow> string \<Rightarrow> string list" where
  "py_split sep maxsplit [] = [[]]"
| "py_split sep maxsplit (c # cs) =
    (if c = sep \<and> 0 < maxsplit then [] # py_split sep (maxsplit - 1) cs
     else (case py_split sep maxsplit cs of
             w # ws \<Rightarrow> (c # w) # ws
           | [] \<Rightarrow> [[c]]))"

text \<open>First loop: the keys of the sections named global or common, in section order.\<close>

definition common_fields_of :: "parser \<Rightarrow> fields" where
  "common_fields_of p =
    fold (\<lambda>(section, opts) common_fields.
            if \<not> is_common_section section then common_fields
            else set_options opts common_fields) p []"

text \<open>
  Second loop. A group seen for the first time starts from a copy of the common fields;
  the options of its section are then written into the group's dict.
\<close>

definition group_step ::
  "fields \<Rightarrow> string \<times> (string \<times> string) list \<Rightarrow> (string \<times> fields) list \<Rightarrow> (string \<times> fields) list" where
  "group_step common_fields = (\<lambda>(section, opts) group_fields.
     if is_common_section section \<or> CHR ''/'' \<in> set section then group_fields
     else (let grp = section;
               current = (case map_of group_fields grp of
                            None \<Rightarrow> common_fields
                          | Some f \<Rightarrow> f)
           in AList.update grp (set_options opts current) group_fields))"

definition group_fields_of :: "parser \<Rightarrow> (string \<times> fields) list" where
  "group_fields_of p = fold (group_step (common_fields_of p)) p []"

text \<open>
  Third loop. \<^verbatim>\<open>grp, tunnel_name = section.split("/", 2)\<close> unpacks into two names a
  list of up to three parts; with three parts Python raises ValueError. The tunnel starts
  from a copy of its group's fields, or from the empty dict when \<open>group_fields\<close> has no
  such group.
\<close>

fun tunnel_sections ::
  "(string \<times> fields) list \<Rightarrow> parser \<Rightarrow> (string \<times> fields list) list \<Rightarrow>
   error + (string \<times> fields list) list" where
  "tunnel_sections group_fields [] tunnel_configs_by_group = Inr tunnel_configs_by_group"
| "tunnel_sections group_fields ((section, opts) # rest) tunnel_configs_by_group =
    (if is_common_section section \<or> CHR ''/'' \<notin> set section
     then tunnel_sections group_fields rest tunnel_configs_by_group
     else (case py_split (CHR ''/'') 2 section of
             [grp, tunnel_name] \<Rightarrow>
               (let fields0 = (case map_of group_fields grp of Some f \<Rightarrow> f | None \<Rightarrow> []);
                    fields1 = AList.update ''tunnel_name'' tunnel_name fields0;
                    previous = (case map_of tunnel_configs_by_group grp of
                                  Some l \<Rightarrow> l
                                | None \<Rightarrow> []);
                    fields2 = set_options opts fields1
                in tunnel_sections group_fields rest
                     (AList.update grp (previous @ [fields2]) tunnel_configs_by_group))
           | _ \<Rightarrow> Inl ValueError))"

text \<open>Last loop: the anonymous tunnel of a group that has fields and no tunnel.\<close>

definition default_step ::
  "string \<times> fields \<Rightarrow> (string \<times> fields list) list \<Rightarrow> (string \<times> fields list) list" where
  "default_step = (\<lambda>(grp, flds) tunnel_configs_by_group.
     if grp \<in> fst ` set tunnel_configs_by_group \<or> length flds = 0
     then tunnel_configs_by_group
     else AList.update grp [AList.update ''tunnel_name'' ''default_tunnel'' flds]
            tunnel_configs_by_group)"

definition analyse_config :: "parser \<Rightarrow> error + (string \<times> fields list) list" where
  "analyse_config p =
    (let group_fields = group_fields_of p
     in case tunnel_sections group_fields p [] of
          Inl e \<Rightarrow> Inl e
        | Inr tunnel_configs_by_group \<Rightarrow>
            Inr (fold default_step group_fields tunnel_configs_by_group))"

text \<open>
  Names for the statements: the part of a section name before its first slash and the part
  after it, the group sections and the tunnel sections of a group in document order, and the field set the third
  loop builds for one of them.
\<close>

definition group_part :: "string \<Rightarrow> string" where
  "group_part section = takeWhile (\<lambda>c. c \<noteq> CHR ''/'') section"

definition tunnel_part :: "string \<Rightarrow> string" where
  "tunnel_part section = tl (dropWhile (\<lambda>c. c \<noteq> CHR ''/'') section)"


definition tunnel_secs :: "parser \<Rightarrow> string \<Rightarrow> parser" where
  "tunnel_secs p g =
    filter (\<lambda>(section, opts). \<not> is_common_section section \<and> CHR ''/'' \<in> set section \<and>
                               group_part section = g) p"

definition tunnel_fields ::
  "(string \<times> fields) list \<Rightarrow> string \<times> (string \<times> string) list \<Rightarrow> fields" where
  "tunnel_fields group_fields = (\<lambda>(section, opts).
     set_options opts
       (AList.update ''tunnel_name'' (tunnel_part section)
          (case map_of group_fields (group_part section) of Some f \<Rightarrow> f | None \<Rightarrow> [])))"

text \<open>
  A document with a common section, a group without tunnels and a group with two tunnel
  sections, and the dict \<open>_analyse_config\<close> returns for it.
\<close>

definition doc1 :: parser where
  "doc1 = [(''common'', [(''ssh_port'', ''2222''), (''user'', ''c'')]),
           (''mail'', [(''local_port'', ''25'')]),
           (''web'', [(''user'', ''g'')]),
           (''web/db'', [(''user'', ''t''), (''remote_port'', ''5432'')]),
           (''web/www'', [(''remote_port'', ''80'')])]"

definition res1 :: "(string \<times> fields list) list" where
  "res1 = [(''web'',
       [[(''ssh_port'', ''2222''), (''user'', ''t''), (''tunnel_name'', ''db''),
         (''remote_port'', ''5432'')],
        [(''ssh_port'', ''2222''), (''user'', ''g''), (''tunnel_name'', ''www''),
         (''remote_port'', ''80'')]]),
      (''mail'',
       [[(''ssh_port'', ''2222''), (''user'', ''c''), (''local_port'', ''25''),
         (''tunnel_name'', ''default_tunnel'')]])]"



section \<open>Primitive validators\<close>

text \<open>
  The library functions the validators call are taken as given: \<open>float(value)\<close> with the
  type \<open>'f\<close> of its results, \<open>int(x)\<close> on such a result, \<open>str(value)\<close>, and the socket,
  regular expression and shell-splitting calls of \<open>_check_config\<close>. Each returns its
  value or the exception it raises; each is a function, so two calls on the same argument
  agree.
\<close>

record 'f pylib =
  float_of :: "pyval \<Rightarrow> error + 'f"
  int_of_float :: "'f \<Rightarrow> error + int"
  str_of :: "pyval \<Rightarrow> error + string"
  inet_aton :: "string \<Rightarrow> error + unit"
  gethostbyname :: "string \<Rightarrow> error + string"
  user_re_match :: "string \<Rightarrow> bool"
  shlex_split :: "string \<Rightarrow> error + string list"

text \<open>\<open>s.lower()\<close> and \<open>s.strip()\<close> on ASCII strings.\<close>

definition lower_char :: "char \<Rightarrow> char" where
  "lower_char c =
    (case map_of (zip ''ABCDEFGHIJKLMNOPQRSTUVWXYZ'' ''abcdefghijklmnopqrstuvwxyz'') c of
       Some l \<Rightarrow> l
     | None \<Rightarrow> c)"

definition py_lower :: "string \<Rightarrow> string" where
  "py_lower s = map lower_char s"

definition is_space :: "char \<Rightarrow> bool" where
  "is_space c = (c \<in> set [CHR '' '', CHR 0x09, CHR 0x0A, CHR 0x0B, CHR 0x0C, CHR 0x0D])"

definition py_strip :: "string \<Rightarrow> string" where
  "py_strip s = rev (dropWhile is_space (rev (dropWhile is_space s)))"

text \<open>
  \<open>int(s)\<close> for a string: surrounding whitespace is dropped, one sign is allowed, and the
  rest must be a non-empty run of decimal digits; anything else is ValueError, the result
  \<open>None\<close> here. (Python 3 also accepts single underscores between digits and non-ASCII
  digits, which are left out.)
\<close>

definition digit_of :: "char \<Rightarrow> nat option" where
  "digit_of c =
    map_of [(CHR ''0'', 0), (CHR ''1'', 1), (CHR ''2'', 2), (CHR ''3'', 3), (CHR ''4'', 4),
            (CHR ''5'', 5), (CHR ''6'', 6), (CHR ''7'', 7), (CHR ''8'', 8), (CHR ''9'', 9)] c"

fun digits_val :: "nat \<Rightarrow> string \<Rightarrow> nat option" where
  "digits_val acc [] = Some acc"
| "digits_val acc (c # cs) =
    (case digit_of c of None \<Rightarrow> None | Some d \<Rightarrow> digits_val (10 * acc + d) cs)"

definition py_int :: "string \<Rightarrow> int option" where
  "py_int s =
    (let t = py_strip s;
         neg = (case t of c # r \<Rightarrow> c = CHR ''-'' | [] \<Rightarrow> False);
         ds = (case t of c # r \<Rightarrow> if c = CHR ''-'' \<or> c = CHR ''+'' then r else t | [] \<Rightarrow> [])
     in if ds = [] then None
        else (case digits_val 0 ds of
                None \<Rightarrow> None
              | Some n \<Rightarrow> Some (if neg then - int n else int n)))"

text \<open>\<open>ll_int\<close>: \<^verbatim>\<open>try: int(var); return True / except ValueError: return False\<close>\<close>

definition ll_int :: "string \<Rightarrow> bool" where
  "ll_int var = (case py_int var of None \<Rightarrow> False | Some _ \<Rightarrow> True)"

text \<open>
  \<open>ll_float\<close> catches ValueError and TypeError only; any other exception of \<open>float\<close>
  goes on to the caller.
\<close>

definition ll_float :: "'f pylib \<Rightarrow> pyval \<Rightarrow> error + bool" where
  "ll_float lib var =
    (case float_of lib var of
       Inr _ \<Rightarrow> Inr True
     | Inl ValueError \<Rightarrow> Inr False
     | Inl TypeError \<Rightarrow> Inr False
     | Inl e \<Rightarrow> Inl e)"

definition true_words :: "string list" where
  "true_words = [''yes'', ''true'', ''t'', ''y'', ''1'', ''o'', ''oui'', ''on'']"

definition false_words :: "string list" where
  "false_words = [''no'', ''false'', ''f'', ''n'', ''0'', ''non'', ''off'']"

text \<open>\<open>int(float(value))\<close>\<close>

definition int_float :: "'f pylib \<Rightarrow> pyval \<Rightarrow> error + int" where
  "int_float lib v =
    (case float_of lib v of Inl e \<Rightarrow> Inl e | Inr x \<Rightarrow> int_of_float lib x)"

text \<open>\<open>ll_bool\<close>, branch by branch as in the source.\<close>

definition ll_bool :: "'f pylib \<Rightarrow> pyval \<Rightarrow> error + bool" where
  "ll_bool lib v =
    (if v = PNone then Inr False
     else (case v of
        PBool b \<Rightarrow> Inr True
      | _ \<Rightarrow>
        (case ll_float lib v of
           Inl e \<Rightarrow> Inl e
         | Inr True \<Rightarrow>
            (case int_float lib v of
               Inl e \<Rightarrow> Inl e
             | Inr n \<Rightarrow> Inr (n \<in> set [0, 1]))
         | Inr False \<Rightarrow>
            (case str_of lib v of
               Inl e \<Rightarrow> Inr False
             | Inr s \<Rightarrow>
                if py_lower s \<in> set true_words then Inr True
                else if py_lower s \<in> set false_words then Inr True
                else Inr False))))"

text \<open>
  \<open>to_bool\<close>. In the numeric branch \<open>int(float(value))\<close> is computed for the test and
  again for the result.
\<close>

definition to_bool :: "'f pylib \<Rightarrow> pyval \<Rightarrow> error + bool" where
  "to_bool lib v =
    (if v = PNone then Inl TypeError
     else (case v of
        PBool b \<Rightarrow> Inr b
      | _ \<Rightarrow>
        (case ll_float lib v of
           Inl e \<Rightarrow> Inl e
         | Inr True \<Rightarrow>
            (case int_float lib v of
               Inl e \<Rightarrow> Inl e
             | Inr n \<Rightarrow>
                if \<not> n \<in> set [0, 1] then Inl TypeError
                else (case int_float lib v of
                        Inl e \<Rightarrow> Inl e
                      | Inr m \<Rightarrow> Inr (m = 1)))
         | Inr False \<Rightarrow>
            (case str_of lib v of
               Inl e \<Rightarrow> Inl TypeError
             | Inr s \<Rightarrow>
                if py_lower s \<in> set true_words then Inr True
                else if py_lower s \<in> set false_words then Inr False
                else Inl TypeError))))"

section \<open>TunnelConfig._check_config\<close>

text \<open>The three port keys share one check; \<open>param\<close> is the key named in the message.\<close>

definition check_port :: "string \<Rightarrow> string \<Rightarrow> string \<Rightarrow> error + pyval" where
  "check_port param tunnel_description val =
    (if \<not> ll_int val
     then Inl (ConfigError (''Invalid value for param '' @ [CHR 0x27] @ param @ [CHR 0x27] @
                            '' of '' @ tunnel_description))
     else (case py_int val of
             None \<Rightarrow> Inl ValueError
           | Some v \<Rightarrow>
               if 0 \<ge> v \<or> v > 65534
               then Inl (ConfigError (''Invalid value for param '' @ [CHR 0x27] @ param @
                                      [CHR 0x27] @ '' of '' @ tunnel_description))
               else Inr (PInt v)))"

text \<open>
  The body of the loop over \<open>tunnel_config.items()\<close>: the normalised key and the cleaned
  value to store, or the exception raised. The configuration values are strings.
\<close>

definition check_field ::
  "'f pylib \<Rightarrow> string \<Rightarrow> string \<Rightarrow> string \<Rightarrow> error + string \<times> pyval" where
  "check_field lib tunnel_description key0 val =
    (let key = py_lower (py_strip key0) in
     if key = ''reverse'' then
       (case ll_bool lib (PStr val) of
          Inl e \<Rightarrow> Inl e
        | Inr False \<Rightarrow>
            Inl (ConfigError (''Invalid value for param '' @ [CHR 0x27] @ ''reverse'' @
                              [CHR 0x27] @ '' of '' @ tunnel_description))
        | Inr True \<Rightarrow>
            (case to_bool lib (PStr val) of
               Inl e \<Rightarrow> Inl e
             | Inr b \<Rightarrow> Inr (key, PBool b)))
     else if key = ''remote_port'' then
       (case check_port ''remote_port'' tunnel_description val of
          Inl e \<Rightarrow> Inl e | Inr v \<Rightarrow> Inr (key, v))
     else if key = ''local_port'' then
       (case check_port ''local_port'' tunnel_description val of
          Inl e \<Rightarrow> Inl e | Inr v \<Rightarrow> Inr (key, v))
     else if key = ''ssh_port'' then
       (case check_port ''ssh_port'' tunnel_description val of
          Inl e \<Rightarrow> Inl e | Inr v \<Rightarrow> Inr (key, v))
     else if key = ''local_address'' then
       (case (case inet_aton lib val of
                Inr _ \<Rightarrow> Inr val
              | Inl _ \<Rightarrow>
                 (case gethostbyname lib val of
                    Inl _ \<Rightarrow> Inl (ConfigError (''Invalid local address '' @ [CHR 0x27] @ val @
                                                [CHR 0x27]))
                  | Inr a \<Rightarrow> Inr a)) of
          Inl e \<Rightarrow> Inl e
        | Inr addr \<Rightarrow>
           (case py_split (CHR ''.'') 2 addr of
              [] \<Rightarrow> Inl (KeyError ''0'')
            | first # _ \<Rightarrow>
               (case py_int first of
                  None \<Rightarrow> Inl ValueError
                | Some n \<Rightarrow>
                   if n \<noteq> 127
                   then Inl (ConfigError (''Invalid local address '' @ [CHR 0x27] @ addr @
                                          [CHR 0x27]))
                   else Inr (key, PStr addr))))
     else if key \<in> set [''user'', ''ssh_user''] then
       (if \<not> user_re_match lib val
        then Inl (ConfigError (''Invalid user name '' @ [CHR 0x27] @ val @ [CHR 0x27]))
        else Inr (''ssh_user'', PStr val))
     else if key \<in> set [''key'', ''ssh_key''] then Inr (''ssh_key'', PStr val)
     else if key = ''ssh_options'' then
       (case shlex_split lib val of Inl e \<Rightarrow> Inl e | Inr l \<Rightarrow> Inr (key, PList l))
     else if key = ''server'' then Inr (''remote_server'', PStr val)
     else if key \<in> set [''group_name'', ''tunnel_name'', ''remote_server''] then Inr (key, PStr val)
     else Inl (ConfigError (''Unknown config option '' @ key)))"

text \<open>The loop itself: the first exception ends it.\<close>

fun check_fields ::
  "'f pylib \<Rightarrow> string \<Rightarrow> (string \<times> string) list \<Rightarrow> (string \<times> pyval) list \<Rightarrow>
   error + (string \<times> pyval) list" where
  "check_fields lib tunnel_description [] cleaned_tunnel = Inr cleaned_tunnel"
| "check_fields lib tunnel_description ((key, val) # rest) cleaned_tunnel =
    (case check_field lib tunnel_description key val of
       Inl e \<Rightarrow> Inl e
     | Inr (k, v) \<Rightarrow>
         check_fields lib tunnel_description rest (AList.update k v cleaned_tunnel))"

text \<open>
  One tunnel of \<open>_check_config\<close>: the defaults, the loop, the two required keys and the
  resolution of the remote server. The result is the dict handed to \<open>Tunnel(...)\<close>.
\<close>

definition clean_tunnel ::
  "'f pylib \<Rightarrow> string \<Rightarrow> fields \<Rightarrow> error + (string \<times> pyval) list" where
  "clean_tunnel lib grp tunnel_config =
    (let cleaned0 =
       [(''reverse'', PBool False),
        (''local_address'', PStr ''127.1.1.1''),
        (''ssh_options'', PList [''-n'', ''-o'', ''ServerAliveInterval=60'', ''-o'',
                                 ''ServerAliveCountMax=3'']),
        (''ssh_user'', PNone),
        (''ssh_key'', PNone),
        (''ssh_port'', PInt 22),
        (''group_name'', PStr grp),
        (''remote_server'', PStr grp)]
     in case map_of tunnel_config ''tunnel_name'' of
          None \<Rightarrow> Inl (KeyError ''tunnel_name'')
        | Some tunnel_name \<Rightarrow>
           (let tunnel_description = grp @ [CHR 0x27] @ ''s '' @ tunnel_name @ '' tunnel'' in
            case check_fields lib tunnel_description tunnel_config cleaned0 of
              Inl e \<Rightarrow> Inl e
            | Inr cleaned \<Rightarrow>
               if ''remote_port'' \<notin> fst ` set cleaned
               then Inl (ConfigError (''Missing param '' @ [CHR 0x27] @ ''remote_port'' @
                                      [CHR 0x27] @ '' of '' @ tunnel_description))
               else if ''local_port'' \<notin> fst ` set cleaned
               then Inl (ConfigError (''Missing param '' @ [CHR 0x27] @ ''local_port'' @
                                      [CHR 0x27] @ '' of '' @ tunnel_description))
               else (case map_of cleaned ''remote_server'' of
                       Some (PStr conf_server) \<Rightarrow>
                         (case gethostbyname lib conf_server of
                            Inl e \<Rightarrow> Inl (ConfigError (''Unknown remote server '' @ [CHR 0x27] @
                                                       conf_server @ [CHR 0x27]))
                          | Inr a \<Rightarrow> Inr (AList.update ''remote_address'' (PStr a) cleaned))
                     | _ \<Rightarrow> Inl (KeyError ''remote_server''))))"

text \<open>
  Library functions for running the validators on examples: \<open>float\<close> and \<open>int\<close> on
  decimal integers only, no name resolution.
\<close>

definition example_lib :: "int pylib" where
  "example_lib =
    \<lparr>float_of = (\<lambda>v. case v of
                       PStr s \<Rightarrow> (case py_int s of None \<Rightarrow> Inl ValueError | Some n \<Rightarrow> Inr n)
                     | PInt n \<Rightarrow> Inr n
                     | PBool b \<Rightarrow> Inr (if b then 1 else 0)
                     | _ \<Rightarrow> Inl TypeError),
     int_of_float = (\<lambda>x. Inr x),
     str_of = (\<lambda>v. case v of PStr s \<Rightarrow> Inr s | _ \<Rightarrow> Inl TypeError),
     inet_aton = (\<lambda>s. Inl IOError),
     gethostbyname = (\<lambda>s. Inl IOError),
     user_re_match = (\<lambda>s. False),
     shlex_split = (\<lambda>s. Inr [s])\<rparr>"

text \<open>The port keys, and the message of the ConfigError raised for one of them.\<close>

definition port_keys :: "string list" where
  "port_keys = [''remote_port'', ''local_port'', ''ssh_port'']"

definition port_msg :: "string \<Rightarrow> string \<Rightarrow> string" where
  "port_msg param d = ''Invalid value for param '' @ [CHR 0x27] @ param @ [CHR 0x27] @ '' of '' @ d"

section \<open>TunnelConfig._pre_process_file\<close>

text \<open>
  \<open>INCLUDE_RE\<close> is \<^verbatim>\<open>^\s*include[ :=]\s*(.*)\s*$\<close>, matched without regard to case:
  the result is group 1, the rest of the line up to its newline.
\<close>

definition include_match :: "string \<Rightarrow> string option" where
  "include_match line =
    (let l = dropWhile is_space line in
     if py_lower (take 7 l) = ''include'' then
       (case drop 7 l of
          [] \<Rightarrow> None
        | sep # r \<Rightarrow>
           if sep \<in> set '' :='' then
             (let body = dropWhile is_space r;
                  grp = takeWhile (\<lambda>c. c \<noteq> CHR 0x0A) body;
                  rest = dropWhile (\<lambda>c. c \<noteq> CHR 0x0A) body
              in if list_all is_space rest then Some grp else None)
           else None)
     else None)"

text \<open>\<open>SECTION_RE\<close> is \<^verbatim>\<open>^\s*\[(.*)\]\s*$\<close>: group 1 is the text between the brackets.\<close>

definition section_match :: "string \<Rightarrow> string option" where
  "section_match line =
    (case dropWhile is_space line of
       [] \<Rightarrow> None
     | c # r \<Rightarrow>
        if c = CHR ''['' then
          (case rev (dropWhile is_space (rev r)) of
             [] \<Rightarrow> None
           | t # ts \<Rightarrow>
              if last (t # ts) = CHR '']'' \<and> CHR 0x0A \<notin> set (butlast (t # ts))
              then Some (butlast (t # ts))
              else None)
        else None)"

text \<open>\<open>os.path.basename\<close> and the root part of \<open>os.path.splitext\<close>.\<close>

definition basename :: "string \<Rightarrow> string" where
  "basename p = rev (takeWhile (\<lambda>c. c \<noteq> CHR ''/'') (rev p))"

definition splitext_root :: "string \<Rightarrow> string" where
  "splitext_root b =
    (if CHR ''.'' \<in> set b
     then (let root = rev (tl (dropWhile (\<lambda>c. c \<noteq> CHR ''.'') (rev b)))
           in if list_all (\<lambda>c. c = CHR ''.'') root then b else root)
     else b)"

definition linesep :: string where
  "linesep = [CHR 0x0A]"

text \<open>
  The files and the library calls on them: the lines of a file opened from a current
  directory (or the exception of \<open>open\<close>), \<open>glob.glob\<close> run in a directory,
  \<open>os.path.abspath(os.path.dirname(filename))\<close>, \<open>check_ini_content\<close>, and
  \<open>configparser_from_str\<close>, which gives the parsed document. The files do not change
  while a configuration is loaded: each call is a function of its arguments.
\<close>

record fsys =
  read_lines :: "string \<Rightarrow> string \<Rightarrow> error + string list"
  glob :: "string \<Rightarrow> string \<Rightarrow> string list"
  abs_dirname :: "string \<Rightarrow> string \<Rightarrow> string"
  check_ini_content :: "string \<Rightarrow> string \<Rightarrow> error + unit"
  configparser_from_str :: "string \<Rightarrow> string \<Rightarrow> error + parser"

text \<open>
  \<open>_pre_process_file\<close> calls itself for every included file. The body is written over
  the recursive call \<open>call\<close>, which takes the current directory, the file name and the
  subsection, and returns the expanded text or the exception raised.
\<close>

type_synonym pre_result = "error + string"

text \<open>
  The loop over \<open>glob.glob(matches.group(1))\<close>, run in the directory \<open>dir\<close> of the
  including file; \<open>result\<close> is the text built so far.
\<close>

fun pre_includes ::
  "(string \<Rightarrow> string \<Rightarrow> string option \<Rightarrow> pre_result) \<Rightarrow> string \<Rightarrow> string option \<Rightarrow>
   string list \<Rightarrow> string \<Rightarrow> pre_result" where
  "pre_includes call dir sub_section [] result = Inr result"
| "pre_includes call dir sub_section (sub_filename # others) result =
    (let sub_sub_section =
           (case sub_section of None \<Rightarrow> [] | Some s \<Rightarrow> s @ ''/'') @
           splitext_root (basename sub_filename)
     in case call dir (py_strip sub_filename) (Some sub_sub_section) of
          Inl e \<Rightarrow> Inl e
        | Inr included \<Rightarrow>
            pre_includes call dir sub_section others (result @ linesep @ linesep @ included))"

text \<open>
  The rewritten header of a section line, when a subsection is active
  (\<^verbatim>\<open>if sub_section:\<close> holds for a non-empty string) and the line is a section header.
\<close>

definition section_header :: "string option \<Rightarrow> string \<Rightarrow> string option" where
  "section_header sub_section line =
    (case sub_section of
       None \<Rightarrow> None
     | Some s \<Rightarrow>
        if s = [] then None
        else (case section_match line of
                None \<Rightarrow> None
              | Some sec \<Rightarrow> Some (''['' @ s @ ''/'' @ sec @ '']'' @ linesep)))"

text \<open>The loop over the lines of the file.\<close>

fun pre_lines ::
  "(string \<Rightarrow> string \<Rightarrow> string option \<Rightarrow> pre_result) \<Rightarrow> fsys \<Rightarrow> string \<Rightarrow> string \<Rightarrow>
   string option \<Rightarrow> string list \<Rightarrow> string \<Rightarrow> pre_result" where
  "pre_lines call fs cwd filename sub_section [] result = Inr result"
| "pre_lines call fs cwd filename sub_section (line # rest) result =
    (case include_match line of
       Some pattern \<Rightarrow>
        (case pre_includes call (abs_dirname fs cwd filename) sub_section
                (glob fs (abs_dirname fs cwd filename) pattern) result of
           Inl e \<Rightarrow> Inl e
         | Inr expanded \<Rightarrow> pre_lines call fs cwd filename sub_section rest expanded)
     | None \<Rightarrow>
        (case section_header sub_section line of
           Some header \<Rightarrow> pre_lines call fs cwd filename sub_section rest (result @ header)
         | None \<Rightarrow> pre_lines call fs cwd filename sub_section rest (result @ line)))"

text \<open>The body of \<open>_pre_process_file\<close>.\<close>

definition file_body ::
  "(string \<Rightarrow> string \<Rightarrow> string option \<Rightarrow> pre_result) \<Rightarrow> fsys \<Rightarrow> string \<Rightarrow> string \<Rightarrow>
   string option \<Rightarrow> pre_result" where
  "file_body call fs cwd filename sub_section =
    (let result = (case sub_section of None \<Rightarrow> [] | Some s \<Rightarrow> ''['' @ s @ '']'' @ linesep) in
     case read_lines fs cwd filename of
       Inl e \<Rightarrow> Inl e
     | Inr lines \<Rightarrow>
        (case pre_lines call fs cwd filename sub_section lines result of
           Inl e \<Rightarrow> Inl e
         | Inr processed \<Rightarrow>
            (case check_ini_content fs processed filename of
               Inl e \<Rightarrow> Inl e
             | Inr _ \<Rightarrow> Inr processed)))"

text \<open>
  Nothing in \<open>_pre_process_file\<close> bounds the nesting of includes; the interpreter does.
  Python allows a fixed number of nested calls and raises RuntimeError (its subclass
  RecursionError in Python 3) in the call that would exceed it. \<open>pre_process_file n\<close> is
  the function run where the stack has room for \<open>n\<close> more nested calls of itself: the call
  one level deeper raises.
\<close>

definition recursion_error :: error where
  "recursion_error = RuntimeError ''maximum recursion depth exceeded''"

fun pre_process_file ::
  "nat \<Rightarrow> fsys \<Rightarrow> string \<Rightarrow> string \<Rightarrow> string option \<Rightarrow> pre_result" where
  "pre_process_file 0 fs = file_body (\<lambda>dir f sub. Inl recursion_error) fs"
| "pre_process_file (Suc n) fs = file_body (pre_process_file n fs) fs"

text \<open>
  The files a file includes directly: for every include line, the directory the glob runs
  in and the stripped name of every file it matches. A file includes itself transitively
  when it reaches itself along this relation.
\<close>

definition includes_of :: "fsys \<Rightarrow> string \<Rightarrow> string \<Rightarrow> (string \<times> string) list" where
  "includes_of fs cwd filename =
    (case read_lines fs cwd filename of
       Inl e \<Rightarrow> []
     | Inr lines \<Rightarrow>
        concat (map (\<lambda>line. case include_match line of
                              None \<Rightarrow> []
                            | Some pattern \<Rightarrow>
                               map (\<lambda>g. (abs_dirname fs cwd filename, py_strip g))
                                 (glob fs (abs_dirname fs cwd filename) pattern)) lines))"


section \<open>TunnelConfig._parse_config\<close>

text \<open>
  The two outer loops of \<open>_check_config\<close>, over the groups and over the tunnels of a
  group. The result lists the cleaned dicts, each of which the source hands to
  \<open>Tunnel(...)\<close>.
\<close>

fun check_config_group ::
  "'f pylib \<Rightarrow> string \<Rightarrow> fields list \<Rightarrow> error + (string \<times> pyval) list list" where
  "check_config_group lib grp [] = Inr []"
| "check_config_group lib grp (tunnel_config # rest) =
    (case clean_tunnel lib grp tunnel_config of
       Inl e \<Rightarrow> Inl e
     | Inr cleaned \<Rightarrow>
        (case check_config_group lib grp rest of
           Inl e \<Rightarrow> Inl e
         | Inr results \<Rightarrow> Inr (cleaned # results)))"

fun check_config ::
  "'f pylib \<Rightarrow> (string \<times> fields list) list \<Rightarrow> error + (string \<times> pyval) list list" where
  "check_config lib [] = Inr []"
| "check_config lib ((grp, tunnel_config_list) # rest) =
    (case check_config_group lib grp tunnel_config_list of
       Inl e \<Rightarrow> Inl e
     | Inr results \<Rightarrow>
        (case check_config lib rest of
           Inl e \<Rightarrow> Inl e
         | Inr more_results \<Rightarrow> Inr (results @ more_results)))"

text \<open>
  \<open>to_str(e)\<close>: the message of the exception where the model keeps one, and the name of
  its class otherwise.
\<close>

fun error_text :: "error \<Rightarrow> string" where
  "error_text (ConfigError m) = m"
| "error_text (RuntimeError m) = m"
| "error_text (AttributeError a) = a"
| "error_text (KeyError k) = k"
| "error_text ValueError = ''ValueError''"
| "error_text TypeError = ''TypeError''"
| "error_text OverflowError = ''OverflowError''"
| "error_text IOError = ''IOError''"

text \<open>
  \<open>_parse_config\<close>: the four stages in a try block. A ConfigError is raised again as it
  is; every other exception is caught by \<^verbatim>\<open>except StandardError\<close> (the script sets
  \<open>StandardError = Exception\<close> under Python 3) and raised as a ConfigError that names the
  file. \<open>limit\<close> is the room on the stack when preprocessing starts.
\<close>

definition parse_config ::
  "'f pylib \<Rightarrow> fsys \<Rightarrow> nat \<Rightarrow> string \<Rightarrow> string \<Rightarrow> error + (string \<times> pyval) list list" where
  "parse_config lib fs limit cwd config_file =
    (case (case pre_process_file limit fs cwd config_file None of
             Inl e \<Rightarrow> Inl e
           | Inr preprocessed \<Rightarrow>
              (case configparser_from_str fs preprocessed config_file of
                 Inl e \<Rightarrow> Inl e
               | Inr parser \<Rightarrow>
                  (case analyse_config parser of
                     Inl e \<Rightarrow> Inl e
                   | Inr config \<Rightarrow> check_config lib config))) of
       Inl (ConfigError m) \<Rightarrow> Inl (ConfigError m)
     | Inl e \<Rightarrow> Inl (ConfigError (''Bad configuration file '' @ config_file @ '': '' @
                                   error_text e))
     | Inr tunnels \<Rightarrow> Inr tunnels)"

text \<open>
  A directory whose file a.conf includes itself, and one whose main.conf includes web.conf.
\<close>

definition cyclic_fs :: fsys where
  "cyclic_fs =
    \<lparr>read_lines = (\<lambda>cwd f. if f = ''a.conf'' then Inr [''include a.conf'' @ linesep]
                            else Inl IOError),
     glob = (\<lambda>cwd pattern. if pattern = ''a.conf'' then [''a.conf''] else []),
     abs_dirname = (\<lambda>cwd f. cwd),
     check_ini_content = (\<lambda>processed f. Inr ()),
     configparser_from_str = (\<lambda>content f. Inr [])\<rparr>"

definition tree_fs :: fsys where
  "tree_fs =
    \<lparr>read_lines = (\<lambda>cwd f.
        if f = ''main.conf'' then Inr [''[common]'' @ linesep, ''include web.conf'' @ linesep]
        else if f = ''web.conf'' then Inr [''server=w1'' @ linesep, ''[db]'' @ linesep]
        else Inl IOError),
     glob = (\<lambda>cwd pattern. if pattern = ''web.conf'' then [''web.conf''] else []),
     abs_dirname = (\<lambda>cwd f. cwd),
     check_ini_content = (\<lambda>processed f. Inr ()),
     configparser_from_str = (\<lambda>content f. Inr [])\<rparr>"

definition tree_rank :: "string \<times> string \<Rightarrow> nat" where
  "tree_rank = (\<lambda>(cwd, f). if f = ''main.conf'' then 1 else 0)"

section \<open>Equality of tunnels\<close>

lemma Tunnel_eq_raises: "Tunnel_eq t1 t2 = Inl (AttributeError ''remote_adress'')"
  by (simp add: Tunnel_eq_def tunnel_getattr_def)

lemma Tunnel_ne_raises: "Tunnel_ne t1 t2 = Inl (AttributeError ''remote_adress'')"
  by (simp add: Tunnel_ne_def Tunnel_eq_raises)

text \<open>
  C4. The claim: for two constructed tunnels, \<open>t1 == t2\<close> returns a boolean, true exactly
  when the (remote address, remote port) pairs agree. The code does not: comparing a
  tunnel with an identical one raises AttributeError, because \<open>__eq__\<close> reads the
  attribute \<open>remote_adress\<close>, which no Tunnel has.
\<close>

theorem C4_eq_raises_on_equal_tunnels:
  "Tunnel_eq web_tunnel web_tunnel = Inl (AttributeError ''remote_adress'')"
  by (rule Tunnel_eq_raises)

section \<open>Lookup by identifiers\<close>

lemma selected_iff:
  "selected ids t = (name t \<in> set ids \<or> group_name t \<in> set ids \<or>
     remote_server t \<in> set ids \<or> remote_address t \<in> set ids)"
  by (auto simp: selected_def matches_def)

lemma fold_step_result:
  "fst (fold (get_tunnels_step ids) ts (r, f)) = r @ filter (selected ids) ts"
  by (induction ts arbitrary: r f) (auto simp: get_tunnels_step_def selected_iff)

lemma step_found:
  "get_tunnels_step ids t (r, f) = (r', f') \<Longrightarrow> i \<in> f' \<Longrightarrow>
     i \<in> f \<or> (i \<in> set ids \<and> matches t i)"
  by (auto simp: get_tunnels_step_def matches_def split: if_splits)

lemma fold_step_found:
  "i \<in> snd (fold (get_tunnels_step ids) ts (r, f)) \<Longrightarrow>
     i \<in> f \<or> (i \<in> set ids \<and> (\<exists>t \<in> set ts. matches t i))"
proof (induction ts arbitrary: r f)
  case Nil then show ?case by simp
next
  case (Cons t ts)
  obtain r' f' where st: "get_tunnels_step ids t (r, f) = (r', f')"
    by (cases "get_tunnels_step ids t (r, f)")
  with Cons.prems have "i \<in> snd (fold (get_tunnels_step ids) ts (r', f'))"
    by simp
  from Cons.IH[OF this]
  have "i \<in> f' \<or> (i \<in> set ids \<and> (\<exists>t \<in> set ts. matches t i))" .
  with step_found[OF st] show ?case by auto
qed

text \<open>
  What does hold of the lookup: when it returns, it returns the selected tunnels in
  registry order, and every requested identifier matches a tunnel.
\<close>

lemma get_tunnels_success:
  assumes "get_tunnels tunnels ids = Inr result"
  shows "result = filter (selected ids) tunnels"
    and "\<forall>i \<in> set ids. \<exists>t \<in> set tunnels. matches t i"
proof -
  obtain r f where rf: "fold (get_tunnels_step ids) tunnels ([], {}) = (r, f)"
    by (cases "fold (get_tunnels_step ids) tunnels ([], {})")
  from assms rf have nf: "filter (\<lambda>i. i \<notin> f) ids = []" and res: "result = r"
    by (auto simp: get_tunnels_def Let_def split: if_splits)
  from fold_step_result[of ids tunnels "[]" "{}"] rf res
  show "result = filter (selected ids) tunnels" by simp
  from nf have "\<forall>i \<in> set ids. i \<in> f" by (simp add: filter_empty_conv)
  with fold_step_found[of _ ids tunnels "[]" "{}"] rf
  show "\<forall>i \<in> set ids. \<exists>t \<in> set tunnels. matches t i" by fastforce
qed

text \<open>
  C3. The claim: the lookup succeeds if and only if every requested identifier matches at
  least one tunnel, and the error lists exactly the identifiers that match none. The code
  records one identifier per tunnel, the first of name, group name, server and address
  that is requested. Asked for a tunnel by its name and by its group together, it
  reports the group as unknown, although the group matches the tunnel.
\<close>

theorem C3_known_group_reported_unknown:
  "matches web_tunnel ''web'' \<and> matches web_tunnel ''prod'' \<and>
   get_tunnels [web_tunnel] [''prod''] = Inr [web_tunnel] \<and>
   get_tunnels [web_tunnel] [''web'', ''prod''] = Inl (RuntimeError ''Unknown tunnels: prod'')"
  by (simp add: matches_def web_tunnel_def get_tunnels_def get_tunnels_step_def)

section \<open>Signal escalation\<close>

text \<open>
  The state kept by the handler is the last three entries of the history of signal times.
\<close>

lemma on_signal_hist:
  "on_signal (drop (length h - 3) h) t =
     (if 2 \<le> length h \<and> t - h ! (length h - 2) < INTERVAL then HardExit else KeyboardInterrupt,
      drop (length (h @ [t]) - 3) (h @ [t]))"
proof -
  let ?q1 = "drop (length h - 3) h @ [t]"
  let ?q2 = "if length ?q1 > 3 then drop (length ?q1 - 3) ?q1 else ?q1"
  have suc: "3 < length h \<Longrightarrow> Suc (length h - 3) = length h - 2"
    by arith
  have q2: "?q2 = drop (length (h @ [t]) - 3) (h @ [t])"
    by (cases "length h \<le> 3") (auto simp: not_le suc)
  have len: "(3 \<le> length ?q2) = (2 \<le> length h)"
    by auto
  have lst: "last ?q2 = t"
    by auto
  have hd2: "2 \<le> length h \<Longrightarrow> hd ?q2 = h ! (length h - 2)"
    unfolding q2 by (simp add: hd_drop_conv_nth nth_append)
  show ?thesis
    unfolding on_signal_def Let_def EVENT_COUNT_def
    using q2 len lst hd2 by (auto simp del: drop_append)
qed

lemma nth_hist:
  "(h @ t # ts) ! length h = t"
  "2 \<le> length h \<Longrightarrow> (h @ t # ts) ! (length h - 2) = h ! (length h - 2)"
proof -
  show "(h @ t # ts) ! length h = t" by simp
  assume "2 \<le> length h"
  then have "length h - 2 < length h" by arith
  then show "(h @ t # ts) ! (length h - 2) = h ! (length h - 2)"
    by (simp add: nth_append)
qed

lemma on_signals_hist:
  "i < length (on_signals (drop (length h - 3) h) ts) \<Longrightarrow>
   (on_signals (drop (length h - 3) h) ts ! i = HardExit) =
     (2 \<le> length h + i \<and> (h @ ts) ! (length h + i) - (h @ ts) ! (length h + i - 2) < INTERVAL)"
proof (induction ts arbitrary: h i)
  case Nil
  then show ?case by simp
next
  case (Cons t ts)
  show ?case
  proof (cases "2 \<le> length h \<and> t - h ! (length h - 2) < INTERVAL")
    case True
    then have eq: "on_signals (drop (length h - 3) h) (t # ts) = [HardExit]"
      by (simp add: on_signal_hist)
    with Cons.prems have "i = 0" by simp
    with eq True show ?thesis by (simp add: nth_hist)
  next
    case False
    then have eq: "on_signals (drop (length h - 3) h) (t # ts) =
        KeyboardInterrupt # on_signals (drop (length (h @ [t]) - 3) (h @ [t])) ts"
      by (simp add: on_signal_hist)
    show ?thesis
    proof (cases i)
      case 0
      show ?thesis
      proof (cases "2 \<le> length h")
        case True
        with False 0 eq show ?thesis by (simp add: nth_hist)
      next
        case False
        with 0 eq show ?thesis by simp
      qed
    next
      case (Suc j)
      with Cons.prems eq
      have j: "j < length (on_signals (drop (length (h @ [t]) - 3) (h @ [t])) ts)"
        by simp
      from Cons.IH[OF j] eq Suc show ?thesis by simp
    qed
  qed
qed

lemma on_signals_length: "length (on_signals q ts) \<le> length ts"
  by (induction ts arbitrary: q) (auto split: prod.splits signal_outcome.splits)

lemma on_signals_Nil: "(on_signals q ts = []) = (ts = [])"
  by (cases ts) (auto split: prod.splits signal_outcome.splits)

lemma on_signals_short:
  "length (on_signals q ts) < length ts \<Longrightarrow> last (on_signals q ts) = HardExit"
  by (induction ts arbitrary: q)
    (auto simp: on_signals_Nil split: prod.splits signal_outcome.splits)

text \<open>
  For clock readings that never decrease, the test of the handler is the window condition:
  the last three signal times lie pairwise less than one second apart.
\<close>

lemma window_sorted:
  assumes "sorted ts" "2 \<le> i" "i < length ts"
  shows "(ts ! i - ts ! (i - 2) < INTERVAL) =
         (\<forall>a \<in> {i - 2, i - 1, i}. \<forall>b \<in> {i - 2, i - 1, i}. ts ! a - ts ! b < INTERVAL)"
proof -
  have a: "ts ! (i - 2) \<le> ts ! (i - 1)"
    using assms by (intro sorted_nth_mono) auto
  have b: "ts ! (i - 1) \<le> ts ! i"
    using assms by (intro sorted_nth_mono) auto
  have "0 < INTERVAL" by (simp add: INTERVAL_def)
  with a b show ?thesis by auto
qed

text \<open>
  C9. For every sequence \<open>ts\<close> of signal times handled from the initial empty state, the
  handler answers signal number \<open>i\<close> (counted from 0) with the hard exit exactly when it
  is at least the third signal and arrives less than one second after the signal two
  before it, the first of the last three; every other signal raises KeyboardInterrupt.
  Handling stops only at a hard exit. Signals at 0 s, 2.5 s and 5 s raise
  KeyboardInterrupt three times; signals at 0 s, 0.4 s and 0.999999 s end in the hard
  exit. Times are compared as the clock reports them: for times that do not decrease,
  the condition says that the last three lie in a window shorter than one second.
\<close>

theorem C9_hard_exit_iff:
  "length (on_signals [] ts) \<le> length ts \<and>
   (\<forall>i < length (on_signals [] ts).
      (on_signals [] ts ! i = HardExit) = (2 \<le> i \<and> ts ! i - ts ! (i - 2) < INTERVAL)) \<and>
   (length (on_signals [] ts) < length ts \<longrightarrow> last (on_signals [] ts) = HardExit) \<and>
   on_signals [] [0, 2500000, 5000000] = [KeyboardInterrupt, KeyboardInterrupt, KeyboardInterrupt] \<and>
   on_signals [] [0, 400000, 999999] = [KeyboardInterrupt, KeyboardInterrupt, HardExit]"
proof -
  have ex: "on_signals [] [0, 2500000, 5000000] = [KeyboardInterrupt, KeyboardInterrupt, KeyboardInterrupt]"
    "on_signals [] [0, 400000, 999999] = [KeyboardInterrupt, KeyboardInterrupt, HardExit]"
    by (simp_all add: on_signal_def INTERVAL_def EVENT_COUNT_def)
  show ?thesis
    using on_signals_hist[of _ "[]" ts] on_signals_length[of "[]" ts]
      on_signals_short[of "[]" ts] ex
    by auto
qed

theorem C9_hard_exit_iff_witness:
  "length (on_signals [] [0, 400000, 999999]) \<le> length [0::int, 400000, 999999] \<and>
   (on_signals [] [0, 400000, 999999] ! 2 = HardExit) =
     ((2::nat) \<le> 2 \<and> [0::int, 400000, 999999] ! 2 - [0, 400000, 999999] ! (2 - 2) < INTERVAL) \<and>
   on_signals [] [0, 400000, 999999] ! 2 = HardExit \<and>
   on_signals [] [0, 2500000, 5000000] ! 2 = KeyboardInterrupt"
proof -
  have len: "(2::nat) < length (on_signals [] [0, 400000, 999999])"
    by (simp add: on_signal_def INTERVAL_def EVENT_COUNT_def)
  from C9_hard_exit_iff[of "[0, 400000, 999999]"] len show ?thesis
    by (simp add: INTERVAL_def)
qed

section \<open>Resolution of the layers\<close>

lemma set_options_map:
  "map_of (set_options opts f) = map_of f ++ map_of (rev opts)"
proof (induction opts arbitrary: f)
  case Nil
  then show ?case by (simp add: set_options_def)
next
  case (Cons a opts)
  obtain k v where a: "a = (k, v)" by (cases a)
  have "map_of (set_options (a # opts) f) = map_of (set_options opts (AList.update k v f))"
    by (simp add: set_options_def a)
  also have "\<dots> = map_of (AList.update k v f) ++ map_of (rev opts)"
    by (rule Cons.IH)
  also have "\<dots> = map_of f ++ map_of (rev (a # opts))"
    by (simp add: a update_conv' map_add_upd_left fun_eq_iff map_add_def split: option.splits)
  finally show ?case .
qed

lemma set_options_lookup:
  "map_of (set_options opts f) k =
     (case map_of (rev opts) k of Some v \<Rightarrow> Some v | None \<Rightarrow> map_of f k)"
  by (simp add: set_options_map map_add_def)

lemma set_options_distinct:
  "distinct (map fst f) \<Longrightarrow> distinct (map fst (set_options opts f))"
  unfolding set_options_def
  by (induction opts arbitrary: f) (auto simp: distinct_update)

lemma py_split_no_sep: "sep \<notin> set s \<Longrightarrow> py_split sep n s = [s]"
  by (induction s) auto

lemma py_split_zero: "py_split sep 0 s = [s]"
  by (induction s) auto

lemma py_split_sep:
  "sep \<in> set s \<Longrightarrow> 0 < n \<Longrightarrow>
   py_split sep n s =
     takeWhile (\<lambda>c. c \<noteq> sep) s # py_split sep (n - 1) (tl (dropWhile (\<lambda>c. c \<noteq> sep) s))"
  by (induction s) (auto simp: py_split_no_sep)

lemma py_split_2:
  "CHR ''/'' \<in> set s \<Longrightarrow>
   py_split (CHR ''/'') 2 s =
     (if CHR ''/'' \<in> set (tunnel_part s)
      then [group_part s, group_part (tunnel_part s), tunnel_part (tunnel_part s)]
      else [group_part s, tunnel_part s])"
  by (simp add: py_split_sep py_split_no_sep py_split_zero group_part_def tunnel_part_def)

lemma in_keys_iff: "(g \<in> fst ` set al) = (map_of al g \<noteq> None)"
  by (simp add: map_of_eq_None_iff)


lemma group_fold_distinct:
  "distinct (map fst acc) \<Longrightarrow> distinct (map fst (fold (group_step c) p acc))"
proof (induction p arbitrary: acc)
  case Nil
  then show ?case by simp
next
  case (Cons a p)
  obtain s opts where a: "a = (s, opts)" by (cases a)
  have "distinct (map fst (group_step c a acc))"
    using Cons.prems by (simp add: a group_step_def Let_def distinct_update)
  from Cons.IH[OF this] show ?case by simp
qed

lemma group_fields_distinct: "distinct (map fst (group_fields_of p))"
  by (simp add: group_fields_of_def group_fold_distinct)





lemma tunnel_sections_lookup:
  "tunnel_sections gf p acc = Inr res \<Longrightarrow>
   map_of res g =
     (if tunnel_secs p g = [] then map_of acc g
      else Some ((case map_of acc g of Some l \<Rightarrow> l | None \<Rightarrow> []) @
                 map (tunnel_fields gf) (tunnel_secs p g)))"
proof (induction p arbitrary: acc)
  case Nil
  then show ?case by (simp add: tunnel_secs_def)
next
  case (Cons a p)
  obtain s opts where a: "a = (s, opts)" by (cases a)
  show ?case
  proof (cases "is_common_section s \<or> CHR ''/'' \<notin> set s")
    case True
    then have ts: "tunnel_secs (a # p) g = tunnel_secs p g"
      by (auto simp: a tunnel_secs_def)
    from True Cons.prems have "tunnel_sections gf p acc = Inr res"
      by (simp add: a)
    from Cons.IH[OF this] ts show ?thesis by simp
  next
    case False
    then have slash: "CHR ''/'' \<in> set s" and nc: "\<not> is_common_section s" by auto
    show ?thesis
    proof (cases "CHR ''/'' \<in> set (tunnel_part s)")
      case True
      with False Cons.prems show ?thesis
        by (simp add: a py_split_2[OF slash])
    next
      case one: False
      let ?f = "tunnel_fields gf (s, opts)"
      let ?prev = "case map_of acc (group_part s) of Some l \<Rightarrow> l | None \<Rightarrow> []"
      let ?acc = "AList.update (group_part s) (?prev @ [?f]) acc"
      from False one Cons.prems have run: "tunnel_sections gf p ?acc = Inr res"
        by (simp add: a py_split_2[OF slash] Let_def tunnel_fields_def)
      note IH = Cons.IH[OF run]
      show ?thesis
      proof (cases "group_part s = g")
        case True
        with slash nc have ts: "tunnel_secs (a # p) g = (s, opts) # tunnel_secs p g"
          by (simp add: a tunnel_secs_def)
        have m: "map_of ?acc g = Some (?prev @ [?f])"
          using True by (simp add: update_conv')
        show ?thesis
          unfolding ts using IH m True by simp
      next
        case False
        then have ts: "tunnel_secs (a # p) g = tunnel_secs p g"
          by (simp add: a tunnel_secs_def)
        have m: "map_of ?acc g = map_of acc g"
          using False by (simp add: update_conv')
        show ?thesis
          unfolding ts using IH m by simp
      qed
    qed
  qed
qed

lemma tunnel_sections_error:
  "tunnel_sections gf p acc = Inl e \<Longrightarrow> e = ValueError"
proof (induction p arbitrary: acc)
  case Nil
  then show ?case by simp
next
  case (Cons a p)
  obtain s opts where a: "a = (s, opts)" by (cases a)
  show ?case
  proof (cases "is_common_section s \<or> CHR ''/'' \<notin> set s")
    case True
    with Cons show ?thesis by (simp add: a)
  next
    case False
    then have slash: "CHR ''/'' \<in> set s" by auto
    from False Cons.prems Cons.IH show ?thesis
      by (simp add: a py_split_2[OF slash] Let_def split: if_splits)
  qed
qed

lemma tunnel_sections_fails:
  "(s, opts) \<in> set p \<Longrightarrow> \<not> is_common_section s \<Longrightarrow> CHR ''/'' \<in> set s \<Longrightarrow>
   CHR ''/'' \<in> set (tunnel_part s) \<Longrightarrow> tunnel_sections gf p acc = Inl ValueError"
proof (induction p arbitrary: acc)
  case Nil
  then show ?case by simp
next
  case (Cons a p)
  obtain s' opts' where a: "a = (s', opts')" by (cases a)
  show ?case
  proof (cases "a = (s, opts)")
    case True
    with Cons.prems a show ?thesis
      by (simp add: py_split_2)
  next
    case False
    with Cons.prems have mem: "(s, opts) \<in> set p" by simp
    note IH = Cons.IH[OF mem Cons.prems(2,3,4)]
    show ?thesis
    proof (cases "is_common_section s' \<or> CHR ''/'' \<notin> set s'")
      case True
      with IH show ?thesis by (simp add: a)
    next
      case False
      then have slash: "CHR ''/'' \<in> set s'" by auto
      from False IH show ?thesis
        by (simp add: a py_split_2[OF slash] Let_def)
    qed
  qed
qed

lemma tunnel_sections_succeeds:
  "\<forall>(s, opts) \<in> set p. \<not> is_common_section s \<and> CHR ''/'' \<in> set s \<longrightarrow>
      CHR ''/'' \<notin> set (tunnel_part s) \<Longrightarrow>
   \<exists>res. tunnel_sections gf p acc = Inr res"
proof (induction p arbitrary: acc)
  case Nil
  then show ?case by simp
next
  case (Cons a p)
  obtain s opts where a: "a = (s, opts)" by (cases a)
  from Cons.prems have rest: "\<forall>(s, opts) \<in> set p. \<not> is_common_section s \<and> CHR ''/'' \<in> set s \<longrightarrow>
      CHR ''/'' \<notin> set (tunnel_part s)" by simp
  note IH = Cons.IH[OF rest]
  show ?case
  proof (cases "is_common_section s \<or> CHR ''/'' \<notin> set s")
    case True
    with IH show ?thesis by (simp add: a)
  next
    case False
    then have slash: "CHR ''/'' \<in> set s" by auto
    from False Cons.prems a have "CHR ''/'' \<notin> set (tunnel_part s)" by simp
    with False IH show ?thesis
      by (simp add: a py_split_2[OF slash] Let_def)
  qed
qed

lemma default_fold_lookup:
  "distinct (map fst gf) \<Longrightarrow>
   map_of (fold default_step gf acc) g =
     (case map_of acc g of
        Some l \<Rightarrow> Some l
      | None \<Rightarrow>
         (case map_of gf g of
            Some f \<Rightarrow> if f = [] then None
                       else Some [AList.update ''tunnel_name'' ''default_tunnel'' f]
          | None \<Rightarrow> None))"
proof (induction gf arbitrary: acc)
  case Nil
  then show ?case by (simp split: option.splits)
next
  case (Cons a gf)
  obtain g' f where a: "a = (g', f)" by (cases a)
  from Cons.prems have d: "distinct (map fst gf)" and nin: "g' \<notin> fst ` set gf"
    by (auto simp: a)
  from nin have gfN: "map_of gf g' = None" by (simp add: map_of_eq_None_iff)
  note IH = Cons.IH[OF d]
  show ?case
  proof (cases "g' \<in> fst ` set acc \<or> f = []")
    case True
    then have st: "fold default_step (a # gf) acc = fold default_step gf acc"
      by (auto simp: a default_step_def)
    show ?thesis
    proof (cases "g = g'")
      case True
      with \<open>g' \<in> fst ` set acc \<or> f = []\<close> gfN show ?thesis
        unfolding st IH by (auto simp: a in_keys_iff split: option.splits)
    next
      case False
      then show ?thesis unfolding st IH by (simp add: a split: option.splits)
    qed
  next
    case False
    let ?acc = "AList.update g' [AList.update ''tunnel_name'' ''default_tunnel'' f] acc"
    from False have st: "fold default_step (a # gf) acc = fold default_step gf ?acc"
      by (simp add: a default_step_def)
    from False have accN: "map_of acc g' = None" by (simp add: in_keys_iff)
    show ?thesis
    proof (cases "g = g'")
      case True
      with False accN show ?thesis
        unfolding st IH by (simp add: a update_conv')
    next
      case False
      then show ?thesis
        unfolding st IH by (simp add: a update_conv' split: option.splits)
    qed
  qed
qed

lemma analyse_config_lookup:
  assumes "analyse_config p = Inr res"
  shows "map_of res g =
     (if tunnel_secs p g \<noteq> []
      then Some (map (tunnel_fields (group_fields_of p)) (tunnel_secs p g))
      else (case map_of (group_fields_of p) g of
              Some f \<Rightarrow> if f = [] then None
                         else Some [AList.update ''tunnel_name'' ''default_tunnel'' f]
            | None \<Rightarrow> None))"
proof -
  from assms obtain tc where tc: "tunnel_sections (group_fields_of p) p [] = Inr tc"
    and res: "res = fold default_step (group_fields_of p) tc"
    by (auto simp: analyse_config_def Let_def split: sum.splits)
  from tunnel_sections_lookup[OF tc, of g]
  have m: "map_of tc g =
      (if tunnel_secs p g = [] then None
       else Some (map (tunnel_fields (group_fields_of p)) (tunnel_secs p g)))"
    by simp
  show ?thesis
    unfolding res default_fold_lookup[OF group_fields_distinct] m by simp
qed

lemma analyse_config_error: "analyse_config p = Inl e \<Longrightarrow> e = ValueError"
  by (auto simp: analyse_config_def Let_def split: sum.splits dest: tunnel_sections_error)

lemma opts_lookup:
  "distinct (map fst opts) \<Longrightarrow> (k, v) \<in> set opts \<Longrightarrow> map_of (rev opts) k = Some v"
  by (rule map_of_is_SomeI) (simp_all add: rev_map[symmetric])



lemma common_skip:
  "\<forall>(s, opts) \<in> set xs. \<not> is_common_section s \<Longrightarrow>
   fold (\<lambda>(section, opts) common_fields.
            if \<not> is_common_section section then common_fields
            else set_options opts common_fields) xs acc = acc"
  by (induction xs arbitrary: acc) auto

lemma common_fields_two:
  assumes "\<forall>(s, opts) \<in> set (xs @ ys @ zs). \<not> is_common_section s"
    and "is_common_section a" "is_common_section b"
  shows "common_fields_of (xs @ (a, oa) # ys @ (b, ob) # zs) = set_options ob (set_options oa [])"
proof -
  from assms(1) have x: "\<forall>(s, opts) \<in> set xs. \<not> is_common_section s"
    and y: "\<forall>(s, opts) \<in> set ys. \<not> is_common_section s"
    and z: "\<forall>(s, opts) \<in> set zs. \<not> is_common_section s"
    by auto
  show ?thesis
    unfolding common_fields_of_def
    by (simp add: common_skip[OF x] common_skip[OF y] common_skip[OF z] assms(2,3))
qed

text \<open>
  C8, as the code has it. In a document whose only common-layer sections are one global and
  one common section, a key set by both resolves to the value of the section that comes
  later: to the value of common when common follows global, to the value of global when
  global follows common.
\<close>

theorem C8_later_section_wins:
  assumes "\<forall>(s, opts) \<in> set (xs @ ys @ zs). \<not> is_common_section s"
    and "distinct (map fst og)" "(k, vg) \<in> set og"
    and "distinct (map fst oc)" "(k, vc) \<in> set oc"
  shows "map_of (common_fields_of (xs @ (''global'', og) # ys @ (''common'', oc) # zs)) k = Some vc \<and>
         map_of (common_fields_of (xs @ (''common'', oc) # ys @ (''global'', og) # zs)) k = Some vg"
proof -
  have g: "is_common_section ''global''" and c: "is_common_section ''common''"
    by (simp_all add: is_common_section_def)
  have "map_of (rev og) k = Some vg" "map_of (rev oc) k = Some vc"
    using assms(2-5) by (simp_all add: opts_lookup)
  then show ?thesis
    by (simp add: common_fields_two[OF assms(1) g c] common_fields_two[OF assms(1) c g]
        set_options_lookup)
qed

text \<open>
  C8. The claim: when a section global and a section common set the same key, the common
  section's value is the resolved one, whatever the order of the two sections. The first
  loop folds both sections in document order, so the later section wins: with common
  before global, the value of global is kept.
\<close>

theorem C8_counterexample:
  "map_of (common_fields_of [(''common'', [(''ssh_port'', ''2222'')]),
                             (''global'', [(''ssh_port'', ''22'')])]) ''ssh_port'' = Some ''22'' \<and>
   map_of (common_fields_of [(''common'', [(''ssh_port'', ''2222'')]),
                             (''global'', [(''ssh_port'', ''22'')])]) ''ssh_port'' \<noteq> Some ''2222''"
  by (simp add: common_fields_of_def set_options_def is_common_section_def)

theorem C8_later_section_wins_witness:
  "map_of (common_fields_of [(''web'', []), (''global'', [(''ssh_port'', ''22'')]),
                             (''common'', [(''ssh_port'', ''2222'')])]) ''ssh_port'' = Some ''2222'' \<and>
   map_of (common_fields_of [(''web'', []), (''common'', [(''ssh_port'', ''2222'')]),
                             (''global'', [(''ssh_port'', ''22'')])]) ''ssh_port'' = Some ''22''"
proof -
  have h: "\<forall>(s, opts) \<in> set ([(''web'', [])] @ [] @ []). \<not> is_common_section s"
    by (simp add: is_common_section_def)
  from C8_later_section_wins[OF h, of "[(''ssh_port'', ''22'')]" "''ssh_port''" "''22''"
      "[(''ssh_port'', ''2222'')]" "''2222''"]
  show ?thesis by simp
qed

text \<open>
  C7. The claim: a section name with a slash is split on its first slash only, so a/b/c is
  the tunnel b/c of the group a. The code splits with \<open>split("/", 2)\<close>, which cuts at
  the first two slashes, and unpacks the three parts into two names: ValueError. A
  section with one slash resolves as claimed.
\<close>

theorem C7_nested_section_raises:
  "py_split (CHR ''/'') 2 ''a/b/c'' = [''a'', ''b'', ''c''] \<and>
   analyse_config [(''a/b/c'', [(''remote_port'', ''22'')])] = Inl ValueError \<and>
   analyse_config [(''a/b'', [(''remote_port'', ''22'')])] =
     Inr [(''a'', [[(''tunnel_name'', ''b''), (''remote_port'', ''22'')]])]"
  by (simp add: analyse_config_def group_fields_of_def group_step_def is_common_section_def
      set_options_def default_step_def common_fields_of_def)

lemma analyse_config_fails:
  assumes "(s, opts) \<in> set p" "\<not> is_common_section s" "CHR ''/'' \<in> set s"
    "CHR ''/'' \<in> set (tunnel_part s)"
  shows "analyse_config p = Inl ValueError"
  by (simp add: analyse_config_def Let_def tunnel_sections_fails[OF assms])

lemmas resolver_defs =
  analyse_config_def group_fields_of_def group_step_def is_common_section_def
  set_options_def default_step_def common_fields_of_def

lemma doc1_result: "analyse_config doc1 = Inr res1"
  by (simp add: doc1_def res1_def resolver_defs)

lemma doc1_groups:
  "map_of (group_fields_of doc1) ''mail'' =
     Some [(''ssh_port'', ''2222''), (''user'', ''c''), (''local_port'', ''25'')]"
  by (simp add: doc1_def resolver_defs)

lemma doc1_tunnel_secs:
  "tunnel_secs doc1 ''mail'' = []"
  "tunnel_secs doc1 ''web'' =
     [(''web/db'', [(''user'', ''t''), (''remote_port'', ''5432'')]),
      (''web/www'', [(''remote_port'', ''80'')])]"
  by (simp_all add: doc1_def tunnel_secs_def is_common_section_def group_part_def)

text \<open>
  C5. When the resolution succeeds: a group whose resolved field set \<open>f\<close> is not empty and
  that has no tunnel section gets exactly one entry, \<open>f\<close> with \<open>tunnel_name\<close> set to
  \<open>default_tunnel\<close> and every other key as in \<open>f\<close>; a group with tunnel sections gets
  exactly the entries built from these sections, in document order, and no other.
\<close>

theorem C5_default_tunnel:
  assumes "analyse_config p = Inr res"
  shows "(map_of (group_fields_of p) g = Some f \<and> f \<noteq> [] \<and> tunnel_secs p g = [] \<longrightarrow>
            map_of res g = Some [AList.update ''tunnel_name'' ''default_tunnel'' f] \<and>
            (\<forall>k. map_of (AList.update ''tunnel_name'' ''default_tunnel'' f) k =
                   (if k = ''tunnel_name'' then Some ''default_tunnel'' else map_of f k))) \<and>
         (tunnel_secs p g \<noteq> [] \<longrightarrow>
            map_of res g = Some (map (tunnel_fields (group_fields_of p)) (tunnel_secs p g)) \<and>
            length (map (tunnel_fields (group_fields_of p)) (tunnel_secs p g)) =
              length (tunnel_secs p g))"
  using analyse_config_lookup[OF assms, of g]
  by (auto simp: update_conv')

theorem C5_default_tunnel_witness:
  "analyse_config doc1 = Inr res1 \<and>
   map_of res1 ''mail'' =
     Some [AList.update ''tunnel_name'' ''default_tunnel''
             [(''ssh_port'', ''2222''), (''user'', ''c''), (''local_port'', ''25'')]] \<and>
   map_of res1 ''web'' =
     Some (map (tunnel_fields (group_fields_of doc1))
       [(''web/db'', [(''user'', ''t''), (''remote_port'', ''5432'')]),
        (''web/www'', [(''remote_port'', ''80'')])])"
proof -
  note a = C5_default_tunnel[OF doc1_result, of "''mail''"
      "[(''ssh_port'', ''2222''), (''user'', ''c''), (''local_port'', ''25'')]"]
  note b = C5_default_tunnel[OF doc1_result, of "''web''" "[]"]
  from a b show ?thesis
    by (simp add: doc1_result doc1_groups doc1_tunnel_secs)
qed














section \<open>Validation of the fields\<close>

lemma ll_bool_True_iff:
  "(ll_bool lib v = Inr True) = (\<exists>b. to_bool lib v = Inr b)"
  by (cases v)
    (auto simp: ll_bool_def to_bool_def split: sum.splits bool.splits if_splits)

lemma ll_bool_False:
  "ll_bool lib v = Inr False \<Longrightarrow> to_bool lib v = Inl TypeError"
  by (cases v)
    (auto simp: ll_bool_def to_bool_def split: sum.splits bool.splits if_splits)

lemma ll_bool_raises:
  "ll_bool lib v = Inl e \<Longrightarrow> to_bool lib v = Inl e"
  by (cases v)
    (auto simp: ll_bool_def to_bool_def split: sum.splits bool.splits if_splits)

lemma key_reverse: "py_lower (py_strip ''reverse'') = ''reverse''"
  by (simp add: py_lower_def py_strip_def is_space_def lower_char_def)

lemma check_field_reverse:
  "check_field lib d ''reverse'' val =
     (case ll_bool lib (PStr val) of
        Inl e \<Rightarrow> Inl e
      | Inr False \<Rightarrow>
          Inl (ConfigError (''Invalid value for param '' @ [CHR 0x27] @ ''reverse'' @
                            [CHR 0x27] @ '' of '' @ d))
      | Inr True \<Rightarrow>
          (case to_bool lib (PStr val) of
             Inl e \<Rightarrow> Inl e
           | Inr b \<Rightarrow> Inr (''reverse'', PBool b)))"
  unfolding check_field_def Let_def key_reverse by simp

text \<open>
  C10. For every value \<open>v\<close> and whatever \<open>float\<close>, \<open>int\<close> and \<open>str\<close> do on it:
  \<open>ll_bool(v)\<close> returns True exactly when \<open>to_bool(v)\<close> returns a boolean; when
  \<open>ll_bool\<close> returns False, \<open>to_bool\<close> raises TypeError; when \<open>ll_bool\<close> raises,
  \<open>to_bool\<close> raises the same exception. So on the \<open>reverse\<close> key, once the check
  \<open>ll_bool(val)\<close> has passed, \<open>to_bool(val)\<close> returns and the field is stored.
\<close>

theorem C10_ll_bool_agrees_with_to_bool:
  "(ll_bool lib v = Inr True) = (\<exists>b. to_bool lib v = Inr b) \<and>
   (ll_bool lib v = Inr False \<longrightarrow> to_bool lib v = Inl TypeError) \<and>
   (\<forall>e. ll_bool lib v = Inl e \<longrightarrow> to_bool lib v = Inl e) \<and>
   (ll_bool lib (PStr val) = Inr True \<longrightarrow>
      (\<exists>b. to_bool lib (PStr val) = Inr b \<and>
           check_field lib d ''reverse'' val = Inr (''reverse'', PBool b)))"
proof (intro conjI allI impI)
  show "(ll_bool lib v = Inr True) = (\<exists>b. to_bool lib v = Inr b)"
    by (rule ll_bool_True_iff)
  show "to_bool lib v = Inl TypeError" if "ll_bool lib v = Inr False"
    using that by (rule ll_bool_False)
  show "to_bool lib v = Inl e" if "ll_bool lib v = Inl e" for e
    using that by (rule ll_bool_raises)
  assume t: "ll_bool lib (PStr val) = Inr True"
  then obtain b where b: "to_bool lib (PStr val) = Inr b"
    using ll_bool_True_iff[of lib "PStr val"] by blast
  with t show "\<exists>b. to_bool lib (PStr val) = Inr b \<and>
      check_field lib d ''reverse'' val = Inr (''reverse'', PBool b)"
    by (simp add: check_field_reverse)
qed

lemmas example_defs =
  py_lower_def py_strip_def is_space_def lower_char_def ll_bool_def to_bool_def ll_float_def
  int_float_def example_lib_def py_int_def digit_of_def true_words_def false_words_def

theorem C10_ll_bool_agrees_with_to_bool_witness:
  "ll_bool example_lib (PStr ''Yes'') = Inr True \<and>
   to_bool example_lib (PStr ''Yes'') = Inr True \<and>
   check_field example_lib ''g t'' ''reverse'' ''Yes'' = Inr (''reverse'', PBool True) \<and>
   ll_bool example_lib (PStr ''2'') = Inr False \<and>
   to_bool example_lib (PStr ''2'') = Inl TypeError"
proof -
  have t: "ll_bool example_lib (PStr ''Yes'') = Inr True"
    by (simp add: example_defs)
  have f: "ll_bool example_lib (PStr ''2'') = Inr False"
    by (simp add: example_defs)
  have tb: "to_bool example_lib (PStr ''Yes'') = Inr True"
    by (simp add: example_defs)
  from C10_ll_bool_agrees_with_to_bool[of example_lib "PStr ''2''" "''Yes''" "''g t''"] t f tb
  show ?thesis by auto
qed

lemma check_port_eq:
  "check_port param d val =
     (case py_int val of
        None \<Rightarrow> Inl (ConfigError (port_msg param d))
      | Some v \<Rightarrow> if 1 \<le> v \<and> v \<le> 65534 then Inr (PInt v)
                  else Inl (ConfigError (port_msg param d)))"
  by (auto simp: check_port_def ll_int_def port_msg_def split: option.splits)

lemma key_ports:
  "py_lower (py_strip ''remote_port'') = ''remote_port''"
  "py_lower (py_strip ''local_port'') = ''local_port''"
  "py_lower (py_strip ''ssh_port'') = ''ssh_port''"
  by (simp_all add: py_lower_def py_strip_def is_space_def lower_char_def)

lemma check_field_port:
  "key \<in> set port_keys \<Longrightarrow>
   check_field lib d key val =
     (case check_port key d val of Inl e \<Rightarrow> Inl e | Inr v \<Rightarrow> Inr (key, v))"
proof -
  assume "key \<in> set port_keys"
  then consider "key = ''remote_port''" | "key = ''local_port''" | "key = ''ssh_port''"
    by (auto simp: port_keys_def)
  then show ?thesis
  proof cases
    case 1
    show ?thesis unfolding 1 by (simp add: check_field_def Let_def key_ports)
  next
    case 2
    show ?thesis unfolding 2 by (simp add: check_field_def Let_def key_ports)
  next
    case 3
    show ?thesis unfolding 3 by (simp add: check_field_def Let_def key_ports)
  qed
qed

lemma py_int_examples:
  "py_int ''0'' = Some 0" "py_int ''65535'' = Some 65535" "py_int ''abc'' = None"
  "py_int ''1'' = Some 1" "py_int ''65534'' = Some 65534"
  by (simp_all add: py_int_def py_strip_def is_space_def digit_of_def)

text \<open>
  C6. For each of the keys \<open>remote_port\<close>, \<open>local_port\<close> and \<open>ssh_port\<close>: a value that
  \<open>int\<close> reads as an integer in [1, 65534] is accepted and stored as that integer; every
  other value (not an integer, or an integer outside the range) raises ConfigError. The
  values 0, 65535 and abc are rejected; 1 and 65534 are accepted.
\<close>

theorem C6_port_bounds:
  assumes "key \<in> set port_keys"
  shows "(\<forall>v. py_int val = Some v \<and> 1 \<le> v \<and> v \<le> 65534 \<longrightarrow>
            check_field lib d key val = Inr (key, PInt v)) \<and>
         (\<not> (\<exists>v. py_int val = Some v \<and> 1 \<le> v \<and> v \<le> 65534) \<longrightarrow>
            check_field lib d key val = Inl (ConfigError (port_msg key d))) \<and>
         check_field lib d key ''0'' = Inl (ConfigError (port_msg key d)) \<and>
         check_field lib d key ''65535'' = Inl (ConfigError (port_msg key d)) \<and>
         check_field lib d key ''abc'' = Inl (ConfigError (port_msg key d)) \<and>
         check_field lib d key ''1'' = Inr (key, PInt 1) \<and>
         check_field lib d key ''65534'' = Inr (key, PInt 65534)"
  unfolding check_field_port[OF assms] check_port_eq
  by (auto simp: py_int_examples split: option.splits)

theorem C6_port_bounds_witness:
  "check_field example_lib ''g t'' ''remote_port'' ''0'' =
     Inl (ConfigError (port_msg ''remote_port'' ''g t'')) \<and>
   check_field example_lib ''g t'' ''remote_port'' ''65535'' =
     Inl (ConfigError (port_msg ''remote_port'' ''g t'')) \<and>
   check_field example_lib ''g t'' ''remote_port'' ''abc'' =
     Inl (ConfigError (port_msg ''remote_port'' ''g t'')) \<and>
   check_field example_lib ''g t'' ''remote_port'' ''1'' = Inr (''remote_port'', PInt 1) \<and>
   check_field example_lib ''g t'' ''remote_port'' ''65534'' = Inr (''remote_port'', PInt 65534) \<and>
   check_field example_lib ''g t'' ''ssh_port'' ''22'' = Inr (''ssh_port'', PInt 22) \<and>
   check_field example_lib ''g t'' ''local_port'' ''-5'' =
     Inl (ConfigError (port_msg ''local_port'' ''g t''))"
proof -
  have k: "''remote_port'' \<in> set port_keys" "''ssh_port'' \<in> set port_keys"
    "''local_port'' \<in> set port_keys"
    by (simp_all add: port_keys_def)
  have i: "py_int ''22'' = Some 22" "py_int ''-5'' = Some (- 5)"
    by (simp_all add: py_int_def py_strip_def is_space_def digit_of_def)
  from C6_port_bounds[OF k(1), of "''0''" example_lib "''g t''"]
    C6_port_bounds[OF k(2), of "''22''" example_lib "''g t''"]
    C6_port_bounds[OF k(3), of "''-5''" example_lib "''g t''"] i
  show ?thesis by simp
qed

text \<open>The same through the loop: a field set that passes has all its ports in range.\<close>

lemma check_fields_ports:
  "check_fields lib d items acc = Inr cleaned \<Longrightarrow> (k, val) \<in> set items \<Longrightarrow>
   py_lower (py_strip k) \<in> set port_keys \<Longrightarrow>
   \<exists>v. py_int val = Some v \<and> 1 \<le> v \<and> v \<le> 65534"
proof (induction items arbitrary: acc)
  case Nil
  then show ?case by simp
next
  case (Cons a items)
  obtain k' val' where a: "a = (k', val')" by (cases a)
  from Cons.prems(1) obtain k2 v2 where
    f: "check_field lib d k' val' = Inr (k2, v2)"
    and rest: "check_fields lib d items (AList.update k2 v2 acc) = Inr cleaned"
    by (auto simp: a split: sum.splits)
  show ?case
  proof (cases "(k, val) = (k', val')")
    case True
    have norm: "py_lower (py_strip (py_lower (py_strip k'))) = py_lower (py_strip k')"
      using Cons.prems(3) True by (auto simp: port_keys_def key_ports)
    have "check_field lib d k' val' = check_field lib d (py_lower (py_strip k')) val'"
      unfolding check_field_def Let_def norm ..
    also have "\<dots> = (case check_port (py_lower (py_strip k')) d val' of
        Inl e \<Rightarrow> Inl e | Inr v \<Rightarrow> Inr (py_lower (py_strip k'), v))"
      using Cons.prems(3) True by (intro check_field_port) simp
    finally have "check_port (py_lower (py_strip k')) d val' = Inr v2"
      using f by (simp split: sum.splits)
    with True show ?thesis
      by (simp add: check_port_eq split: option.splits if_splits)
  next
    case False
    with Cons.prems(2) a have "(k, val) \<in> set items" by auto
    from Cons.IH[OF rest this Cons.prems(3)] show ?thesis .
  qed
qed

section \<open>Include expansion\<close>







lemma parse_config_total:
  "(\<exists>msg. parse_config lib fs limit cwd f = Inl (ConfigError msg)) \<or>
   (\<exists>tunnels. parse_config lib fs limit cwd f = Inr tunnels)"
  unfolding parse_config_def by (auto split: sum.splits error.splits)



text \<open>
  Where the include graph below a file has no cycle, the limit plays no part once the
  stack has room for the longest chain of includes: the text returned, or the exception
  raised, is the same for every larger room.
\<close>

lemma pre_includes_cong:
  assumes "\<And>g s. g \<in> set gl \<Longrightarrow> call1 dir (py_strip g) s = call2 dir (py_strip g) s"
  shows "pre_includes call1 dir sub gl res = pre_includes call2 dir sub gl res"
  using assms
proof (induction gl arbitrary: res)
  case Nil
  then show ?case by simp
next
  case (Cons a gl)
  have "\<And>s. call1 dir (py_strip a) s = call2 dir (py_strip a) s" using Cons.prems by simp
  moreover have "\<And>r. pre_includes call1 dir sub gl r = pre_includes call2 dir sub gl r"
    using Cons.IH Cons.prems by simp
  ultimately show ?case by (simp add: Let_def split: sum.splits)
qed

lemma pre_lines_cong:
  assumes "\<And>line pat g s. line \<in> set lines \<Longrightarrow> include_match line = Some pat \<Longrightarrow>
             g \<in> set (glob fs (abs_dirname fs cwd f) pat) \<Longrightarrow>
             call1 (abs_dirname fs cwd f) (py_strip g) s = call2 (abs_dirname fs cwd f) (py_strip g) s"
  shows "pre_lines call1 fs cwd f sub lines res = pre_lines call2 fs cwd f sub lines res"
  using assms
proof (induction lines arbitrary: res)
  case Nil
  then show ?case by simp
next
  case (Cons a lines)
  have rest: "pre_lines call1 fs cwd f sub lines r = pre_lines call2 fs cwd f sub lines r" for r
  proof (rule Cons.IH)
    fix line pat g s
    assume "line \<in> set lines" "include_match line = Some pat"
      "g \<in> set (glob fs (abs_dirname fs cwd f) pat)"
    then show "call1 (abs_dirname fs cwd f) (py_strip g) s =
               call2 (abs_dirname fs cwd f) (py_strip g) s"
      using Cons.prems[of line pat g s] by simp
  qed
  show ?case
  proof (cases "include_match a")
    case None
    with rest show ?thesis by (simp split: option.splits)
  next
    case (Some pat)
    have "pre_includes call1 (abs_dirname fs cwd f) sub (glob fs (abs_dirname fs cwd f) pat) res =
          pre_includes call2 (abs_dirname fs cwd f) sub (glob fs (abs_dirname fs cwd f) pat) res"
    proof (rule pre_includes_cong)
      fix g s
      assume "g \<in> set (glob fs (abs_dirname fs cwd f) pat)"
      then show "call1 (abs_dirname fs cwd f) (py_strip g) s =
                 call2 (abs_dirname fs cwd f) (py_strip g) s"
        using Cons.prems[of a pat g s] Some by simp
    qed
    with Some rest show ?thesis by (simp split: sum.splits)
  qed
qed

lemma file_body_cong:
  assumes "\<And>d g s. (d, g) \<in> set (includes_of fs cwd f) \<Longrightarrow> call1 d g s = call2 d g s"
  shows "file_body call1 fs cwd f sub = file_body call2 fs cwd f sub"
proof (cases "read_lines fs cwd f")
  case (Inl e)
  then show ?thesis by (simp add: file_body_def)
next
  case (Inr lines)
  have "pre_lines call1 fs cwd f sub lines res = pre_lines call2 fs cwd f sub lines res" for res
  proof (rule pre_lines_cong)
    fix line pat g s
    assume "line \<in> set lines" "include_match line = Some pat"
      "g \<in> set (glob fs (abs_dirname fs cwd f) pat)"
    with Inr have "(abs_dirname fs cwd f, py_strip g) \<in> set (includes_of fs cwd f)"
      by (force simp: includes_of_def)
    then show "call1 (abs_dirname fs cwd f) (py_strip g) s = call2 (abs_dirname fs cwd f) (py_strip g) s"
      by (rule assms)
  qed
  with Inr show ?thesis by (simp add: file_body_def Let_def)
qed

lemma pre_process_file_limit:
  assumes rank: "\<And>cwd f d g. (d, g) \<in> set (includes_of fs cwd f) \<Longrightarrow> rank (d, g) < rank (cwd, f)"
  shows "rank (cwd, f) \<le> n \<Longrightarrow> rank (cwd, f) \<le> m \<Longrightarrow>
         pre_process_file n fs cwd f sub = pre_process_file m fs cwd f sub"
proof (induction n arbitrary: m cwd f sub)
  case 0
  then have none: "includes_of fs cwd f = []"
    using rank[of _ _ cwd f] by (cases "includes_of fs cwd f") auto
  have "pre_process_file m fs cwd f sub = file_body (\<lambda>dir f sub. Inl recursion_error) fs cwd f sub"
  proof (cases m)
    case 0
    then show ?thesis by simp
  next
    case (Suc k)
    have "file_body (pre_process_file k fs) fs cwd f sub =
          file_body (\<lambda>dir f sub. Inl recursion_error) fs cwd f sub"
      by (rule file_body_cong) (simp add: none)
    with Suc show ?thesis by simp
  qed
  then show ?case by simp
next
  case (Suc n)
  show ?case
  proof (cases m)
    case 0
    with Suc.prems have none: "includes_of fs cwd f = []"
      using rank[of _ _ cwd f] by (cases "includes_of fs cwd f") auto
    have "file_body (pre_process_file n fs) fs cwd f sub =
          file_body (\<lambda>dir f sub. Inl recursion_error) fs cwd f sub"
      by (rule file_body_cong) (simp add: none)
    with 0 show ?thesis by simp
  next
    case (Suc k)
    have "file_body (pre_process_file n fs) fs cwd f sub =
          file_body (pre_process_file k fs) fs cwd f sub"
    proof (rule file_body_cong)
      fix d g s
      assume "(d, g) \<in> set (includes_of fs cwd f)"
      from rank[OF this] Suc.prems Suc have "rank (d, g) \<le> n" "rank (d, g) \<le> k" by simp_all
      then show "pre_process_file n fs d g s = pre_process_file k fs d g s" by (rule Suc.IH)
    qed
    with Suc show ?thesis by simp
  qed
qed

text \<open>
  The two directories: a.conf, whose one line is \<open>include a.conf\<close>, and main.conf, which
  includes web.conf.
\<close>

lemmas pre_example_defs =
  include_match_def section_match_def section_header_def is_space_def py_lower_def
  lower_char_def py_strip_def linesep_def basename_def splitext_root_def


lemma cyclic_body:
  assumes "\<And>d s. call d ''a.conf'' s = Inl recursion_error"
  shows "file_body call cyclic_fs cwd ''a.conf'' sub = Inl recursion_error"
  by (simp add: file_body_def cyclic_fs_def Let_def pre_example_defs assms)

lemma cyclic_raises: "pre_process_file n cyclic_fs cwd ''a.conf'' sub = Inl recursion_error"
  by (induction n arbitrary: cwd sub) (simp_all add: cyclic_body)

lemma cyclic_load:
  "parse_config lib cyclic_fs n cwd ''a.conf'' =
     Inl (ConfigError ''Bad configuration file a.conf: maximum recursion depth exceeded'')"
  by (simp add: parse_config_def cyclic_raises recursion_error_def)

lemma tree_rank_decreases:
  "(d, g) \<in> set (includes_of tree_fs cwd f) \<Longrightarrow> tree_rank (d, g) < tree_rank (cwd, f)"
proof -
  assume a: "(d, g) \<in> set (includes_of tree_fs cwd f)"
  consider "f = ''main.conf''" | "f = ''web.conf''" | "f \<noteq> ''main.conf'' \<and> f \<noteq> ''web.conf''"
    by blast
  then show ?thesis
  proof cases
    case 1
    with a show ?thesis
      by (simp add: includes_of_def tree_fs_def tree_rank_def pre_example_defs)
  next
    case 2
    with a show ?thesis
      by (simp add: includes_of_def tree_fs_def tree_rank_def pre_example_defs)
  next
    case 3
    with a show ?thesis
      by (simp add: includes_of_def tree_fs_def tree_rank_def)
  qed
qed

lemma tree_example:
  "pre_process_file (Suc n) tree_fs ''/etc'' ''main.conf'' None =
     Inr (''[common]'' @ linesep @ linesep @ linesep @ ''[web]'' @ linesep @
          ''server=w1'' @ linesep @ ''[web/db]'' @ linesep)"
proof -
  have "pre_process_file 1 tree_fs ''/etc'' ''main.conf'' None =
     Inr (''[common]'' @ linesep @ linesep @ linesep @ ''[web]'' @ linesep @
          ''server=w1'' @ linesep @ ''[web/db]'' @ linesep)"
    by (simp add: file_body_def tree_fs_def Let_def pre_example_defs)
  moreover have "pre_process_file (Suc n) tree_fs ''/etc'' ''main.conf'' None =
                 pre_process_file 1 tree_fs ''/etc'' ''main.conf'' None"
    by (rule pre_process_file_limit[where rank = tree_rank, OF tree_rank_decreases])
       (simp_all add: tree_rank_def)
  ultimately show ?thesis by simp
qed


end
